theory Spec2Isabelle
  imports Complex_Main "HOL-Library.AList" "HOL-Library.Sublist"
begin

section \<open>The knowledge retriever of the food-label scanner\<close>

text \<open>
  The development embeds the retrieval step of \<^verbatim>\<open>Brahim_AIT_LHAJ_ali/app.py\<close>:
  the construction of \<^verbatim>\<open>INGREDIENT_LOOKUP\<close> (lines 46 to 49),
  \<^verbatim>\<open>fuzzy_match_ingredient\<close> (lines 145 to 175) and
  \<^verbatim>\<open>retrieve_knowledge\<close> (lines 178 to 196).
\<close>

subsection \<open>Data\<close>

text \<open>
  An entry of \<^verbatim>\<open>data.json\<close> is a Python dict from field names to JSON values:
  null, numbers, strings, arrays (Python lists) and objects (Python dicts). Numbers are
  integers; booleans and fractional numbers, which Python compares across types
  (\<^verbatim>\<open>True == 1 == 1.0\<close>), are left out, so that Python's equality on the values
  of the model is structural. A dict is an association list read with \<^const>\<open>map_of\<close>.
\<close>

datatype json = JNull | JNum int | JStr string | JArr "json list" | JObj "(string \<times> json) list"

text \<open>
  Lists and dicts are unhashable: testing one for membership in a set raises
  \<^verbatim>\<open>TypeError\<close>.
\<close>

fun hashable :: "json \<Rightarrow> bool" where
  "hashable (JArr xs) = False"
| "hashable (JObj kvs) = False"
| "hashable v = True"

type_synonym entry = "(string \<times> json) list"

text \<open>
  \<^verbatim>\<open>INGREDIENT_LOOKUP\<close> is a Python dict from normalised names to entries. Python
  dicts iterate in insertion order, and tier 2 of the matcher depends on that order, so the
  dict is an association list in insertion order.
\<close>

type_synonym lookup = "(string \<times> entry) list"

datatype error = KeyError string | AttributeError | TypeError | NameError

subsection \<open>Strings\<close>

text \<open>
  A character is read as a code point below 256. \<^verbatim>\<open>str.lower\<close> maps
  \<^verbatim>\<open>A-Z\<close> and the capital letters of Latin-1 (192 to 222 without the
  multiplication sign 215) to the code point 32 above; \<^verbatim>\<open>str.strip\<close> removes the
  code points for which \<^verbatim>\<open>str.isspace\<close> holds from both ends.
\<close>

definition lower_char :: "char \<Rightarrow> char" where
  "lower_char c =
     (let n = (of_char c :: nat)
      in if (65 \<le> n \<and> n \<le> 90) \<or> (192 \<le> n \<and> n \<le> 222 \<and> n \<noteq> 215)
         then char_of (n + 32) else c)"

definition lower :: "string \<Rightarrow> string" where
  "lower s = map lower_char s"

definition isspace :: "char \<Rightarrow> bool" where
  "isspace c =
     (let n = (of_char c :: nat)
      in (9 \<le> n \<and> n \<le> 13) \<or> (28 \<le> n \<and> n \<le> 32) \<or> n = 133 \<or> n = 160)"

definition strip :: "string \<Rightarrow> string" where
  "strip s = rev (dropWhile isspace (rev (dropWhile isspace s)))"

text \<open>\<^verbatim>\<open>x in y\<close> on strings: \<open>x\<close> occurs in \<open>y\<close> as a contiguous block.\<close>

fun str_in :: "string \<Rightarrow> string \<Rightarrow> bool" where
  "str_in x [] = (x = [])"
| "str_in x (c # y) = (prefix x (c # y) \<or> str_in x y)"

subsection \<open>Building the lookup dict (lines 46 to 49)\<close>

text \<open>
  \<^verbatim>\<open>
  INGREDIENT_LOOKUP = {}
  for entry in INGREDIENT_DB:
      key = entry["ingredient"].lower().strip()
      INGREDIENT_LOOKUP[key] = entry
  \<close>
  A missing field raises \<^verbatim>\<open>KeyError\<close>, a value that is no string has no method
  \<^verbatim>\<open>lower\<close> and raises \<^verbatim>\<open>AttributeError\<close>. Assigning to a key of a dict
  replaces the value where the key stands, or appends the key: \<^const>\<open>AList.update\<close>.
\<close>

fun build_lookup :: "entry list \<Rightarrow> lookup \<Rightarrow> error + lookup" where
  "build_lookup [] LOOKUP = Inr LOOKUP"
| "build_lookup (entry # rest) LOOKUP =
     (case map_of entry ''ingredient'' of
        None \<Rightarrow> Inl (KeyError ''ingredient'')
      | Some (JStr s) \<Rightarrow> build_lookup rest (AList.update (strip (lower s)) entry LOOKUP)
      | Some _ \<Rightarrow> Inl AttributeError)"

definition INGREDIENT_LOOKUP :: "entry list \<Rightarrow> error + lookup" where
  "INGREDIENT_LOOKUP INGREDIENT_DB = build_lookup INGREDIENT_DB []"

subsection \<open>The matcher (lines 145 to 175)\<close>

text \<open>
  \<^verbatim>\<open>SequenceMatcher(None, a, b).ratio()\<close> belongs to the Python standard library. The
  matcher takes it as the parameter \<open>sim\<close>; its value, a finite double, is a rational
  number, and so is the threshold. Every theorem about the matcher holds for every
  \<open>sim\<close>.
\<close>

type_synonym similarity = "string \<Rightarrow> string \<Rightarrow> rat"

text \<open>Tier 2, the loop of lines 158 to 161.\<close>

fun containment_scan :: "string \<Rightarrow> lookup \<Rightarrow> entry option" where
  "containment_scan normalised [] = None"
| "containment_scan normalised ((key, record) # rest) =
     (if str_in key normalised \<or> str_in normalised key then Some record
      else containment_scan normalised rest)"

text \<open>Tier 3, the loop of lines 166 to 170, on the pair \<open>(best_score, best_record)\<close>.\<close>

fun best_scan :: "similarity \<Rightarrow> string \<Rightarrow> lookup \<Rightarrow> rat \<times> entry option \<Rightarrow> rat \<times> entry option" where
  "best_scan sim normalised [] best = best"
| "best_scan sim normalised ((key, record) # rest) (best_score, best_record) =
     (let score = sim normalised key
      in if score > best_score then best_scan sim normalised rest (score, Some record)
         else best_scan sim normalised rest (best_score, best_record))"

text \<open>The function returns the record or \<^verbatim>\<open>None\<close>.\<close>

definition fuzzy_match_ingredient :: "similarity \<Rightarrow> lookup \<Rightarrow> string \<Rightarrow> rat \<Rightarrow> entry option" where
  "fuzzy_match_ingredient sim LOOKUP name threshold =
     (let normalised = strip (lower name)
      in case map_of LOOKUP normalised of
           Some record \<Rightarrow> Some record
         | None \<Rightarrow>
             (case containment_scan normalised LOOKUP of
                Some record \<Rightarrow> Some record
              | None \<Rightarrow>
                  (case best_scan sim normalised LOOKUP (0, None) of
                     (best_score, best_record) \<Rightarrow>
                       if best_score \<ge> threshold then best_record else None)))"

subsection \<open>Retrieval (lines 178 to 196)\<close>

text \<open>
  \<^verbatim>\<open>
  matched = []; unmatched = []; seen_ids = set()
  for name in ingredient_names:
      record = fuzzy_match_ingredient(name)
      if record and record["id"] not in seen_ids:
          matched.append(record)
          seen_ids.add(record["id"])
      elif record is None:
          unmatched.append(name)
  return matched, unmatched
  \<close>
  The state of the loop is the global dict the matcher reads and the three local
  collections. The call leaves the threshold at its default \<^verbatim>\<open>0.65\<close>. A dict is
  true when it is not empty; \<^verbatim>\<open>record["id"]\<close> raises \<^verbatim>\<open>KeyError\<close> on a record
  without that field, and \<^verbatim>\<open>not in seen_ids\<close> hashes the id, which raises
  \<^verbatim>\<open>TypeError\<close> on a list or a dict.
\<close>

record state =
  lookup_global :: lookup
  matched :: "entry list"
  unmatched :: "string list"
  seen_ids :: "json set"

definition default_threshold :: rat where
  "default_threshold = 13 / 20"

definition retrieve_step :: "similarity \<Rightarrow> string \<Rightarrow> state \<Rightarrow> error + state" where
  "retrieve_step sim name s =
     (case fuzzy_match_ingredient sim (lookup_global s) name default_threshold of
        None \<Rightarrow> Inr (s\<lparr>unmatched := unmatched s @ [name]\<rparr>)
      | Some record \<Rightarrow>
          if record = [] then Inr s
          else (case map_of record ''id'' of
                  None \<Rightarrow> Inl (KeyError ''id'')
                | Some i \<Rightarrow>
                    if \<not> hashable i then Inl TypeError
                    else if i \<notin> seen_ids s
                    then Inr (s\<lparr>matched := matched s @ [record],
                                seen_ids := insert i (seen_ids s)\<rparr>)
                    else Inr s))"

fun retrieve_loop :: "similarity \<Rightarrow> string list \<Rightarrow> state \<Rightarrow> error + state" where
  "retrieve_loop sim [] s = Inr s"
| "retrieve_loop sim (name # rest) s =
     (case retrieve_step sim name s of
        Inl e \<Rightarrow> Inl e
      | Inr s' \<Rightarrow> retrieve_loop sim rest s')"

definition initial_state :: "lookup \<Rightarrow> state" where
  "initial_state LOOKUP =
     \<lparr>lookup_global = LOOKUP, matched = [], unmatched = [], seen_ids = {}\<rparr>"

definition retrieve_knowledge ::
  "similarity \<Rightarrow> lookup \<Rightarrow> string list \<Rightarrow> error + (entry list \<times> string list)" where
  "retrieve_knowledge sim LOOKUP ingredient_names =
     (case retrieve_loop sim ingredient_names (initial_state LOOKUP) of
        Inl e \<Rightarrow> Inl e
      | Inr s \<Rightarrow> Inr (matched s, unmatched s))"

subsection \<open>Retrieval on a store\<close>

text \<open>
  To speak of shared state, \<^verbatim>\<open>retrieve_knowledge\<close> once more, on an explicit store. An
  object is the lookup dict with its records, a list of records, a list of strings or a set
  of ids. The store is the list of the objects allocated so far, and the address of an
  object is its position. \<^verbatim>\<open>[]\<close> and \<^verbatim>\<open>set()\<close> allocate; \<^verbatim>\<open>append\<close> and
  \<^verbatim>\<open>add\<close> overwrite the object at the address of the list or set. The matcher, lines 151
  to 175, has no statement that writes to an object; it reads the dict at the address
  \<open>g\<close> of the global. The addresses \<open>m\<close>, \<open>u\<close> and \<open>sn\<close> are those of
  \<^verbatim>\<open>matched\<close>, \<^verbatim>\<open>unmatched\<close> and \<^verbatim>\<open>seen_ids\<close>. A name bound to no object of
  its kind gives \<^verbatim>\<open>NameError\<close>. The function returns the references of its two lists,
  or the error, and the store.
\<close>

datatype object = Index lookup | Records "entry list" | Names "string list" | Ids "json set"

type_synonym heap = "object list"

definition deref :: "heap \<Rightarrow> nat \<Rightarrow> object option" where
  "deref h a = (if a < length h then Some (h ! a) else None)"

definition alloc :: "object \<Rightarrow> heap \<Rightarrow> nat \<times> heap" where
  "alloc ob h = (length h, h @ [ob])"

definition retrieve_step_heap ::
  "similarity \<Rightarrow> nat \<Rightarrow> nat \<Rightarrow> nat \<Rightarrow> nat \<Rightarrow> string \<Rightarrow> heap \<Rightarrow> error option \<times> heap" where
  "retrieve_step_heap sim g m u sn name h =
     (case deref h g of
        Some (Index LOOKUP) \<Rightarrow>
          (case fuzzy_match_ingredient sim LOOKUP name default_threshold of
             None \<Rightarrow>
               (case deref h u of
                  Some (Names unmatched_names) \<Rightarrow> (None, h[u := Names (unmatched_names @ [name])])
                | _ \<Rightarrow> (Some NameError, h))
           | Some record \<Rightarrow>
               if record = [] then (None, h)
               else (case map_of record ''id'' of
                       None \<Rightarrow> (Some (KeyError ''id''), h)
                     | Some i \<Rightarrow>
                         if \<not> hashable i then (Some TypeError, h)
                         else (case deref h sn of
                                 Some (Ids seen) \<Rightarrow>
                                   if i \<notin> seen
                                   then (case deref h m of
                                           Some (Records matched_records) \<Rightarrow>
                                             (None, h[m := Records (matched_records @ [record]),
                                                      sn := Ids (insert i seen)])
                                         | _ \<Rightarrow> (Some NameError, h))
                                   else (None, h)
                               | _ \<Rightarrow> (Some NameError, h))))
      | _ \<Rightarrow> (Some NameError, h))"

fun retrieve_loop_heap ::
  "similarity \<Rightarrow> nat \<Rightarrow> nat \<Rightarrow> nat \<Rightarrow> nat \<Rightarrow> string list \<Rightarrow> heap \<Rightarrow> error option \<times> heap" where
  "retrieve_loop_heap sim g m u sn [] h = (None, h)"
| "retrieve_loop_heap sim g m u sn (name # rest) h =
     (case retrieve_step_heap sim g m u sn name h of
        (Some e, h') \<Rightarrow> (Some e, h')
      | (None, h') \<Rightarrow> retrieve_loop_heap sim g m u sn rest h')"

definition retrieve_knowledge_heap ::
  "similarity \<Rightarrow> nat \<Rightarrow> string list \<Rightarrow> heap \<Rightarrow> (error + nat \<times> nat) \<times> heap" where
  "retrieve_knowledge_heap sim g ingredient_names h =
     (case alloc (Records []) h of (m, h1) \<Rightarrow>
      case alloc (Names []) h1 of (u, h2) \<Rightarrow>
      case alloc (Ids {}) h2 of (sn, h3) \<Rightarrow>
      case retrieve_loop_heap sim g m u sn ingredient_names h3 of
        (Some e, h') \<Rightarrow> (Inl e, h')
      | (None, h') \<Rightarrow> (Inr (m, u), h'))"

definition returned_lists :: "(error + nat \<times> nat) \<Rightarrow> heap \<Rightarrow> error + (entry list \<times> string list)" where
  "returned_lists r h =
     (case r of
        Inl e \<Rightarrow> Inl e
      | Inr (m, u) \<Rightarrow>
          (case (deref h m, deref h u) of
             (Some (Records matched_records), Some (Names unmatched_names)) \<Rightarrow>
               Inr (matched_records, unmatched_names)
           | _ \<Rightarrow> Inl NameError))"

text \<open>
  The store and a loop state of the functional model describe the same situation: the
  global lies below \<open>n\<close>, the three locals at or above it.
\<close>

definition corresponds :: "nat \<Rightarrow> nat \<Rightarrow> nat \<Rightarrow> nat \<Rightarrow> nat \<Rightarrow> heap \<Rightarrow> state \<Rightarrow> bool" where
  "corresponds n g m u sn h s \<longleftrightarrow>
     g < n \<and> n \<le> m \<and> n \<le> u \<and> n \<le> sn \<and> m \<noteq> u \<and> m \<noteq> sn \<and> u \<noteq> sn
     \<and> deref h g = Some (Index (lookup_global s))
     \<and> deref h m = Some (Records (matched s))
     \<and> deref h u = Some (Names (unmatched s))
     \<and> deref h sn = Some (Ids (seen_ids s))"

subsection \<open>The similarity ratio of the standard library\<close>

text \<open>
  For the examples the ratio is computed as \<^verbatim>\<open>difflib\<close> documents it, for a second
  string of fewer than 200 characters (no automatic junk): the longest matching block of
  \<open>a\<close> and \<open>b\<close>, the earliest in \<open>a\<close> and then the earliest in \<open>b\<close> among the longest;
  then the same to the left and to the right of it; \<open>M\<close> is the total size of the blocks
  and the ratio is \<open>2 M / (|a| + |b|)\<close>, or 1 when both strings are empty. Python
  returns the double nearest to that quotient.
\<close>

fun common_prefix :: "'a list \<Rightarrow> 'a list \<Rightarrow> nat" where
  "common_prefix (x # xs) (y # ys) = (if x = y then Suc (common_prefix xs ys) else 0)"
| "common_prefix xs ys = 0"

fun longest_step ::
  "'a list \<Rightarrow> 'a list \<Rightarrow> nat \<times> nat \<Rightarrow> nat \<times> nat \<times> nat \<Rightarrow> nat \<times> nat \<times> nat" where
  "longest_step a b (i, j) (besti, bestj, bestsize) =
     (let k = common_prefix (drop i a) (drop j b)
      in if k > bestsize then (i, j, k) else (besti, bestj, bestsize))"

definition find_longest_match :: "'a list \<Rightarrow> 'a list \<Rightarrow> nat \<times> nat \<times> nat" where
  "find_longest_match a b =
     fold (longest_step a b) (List.product [0..<length a] [0..<length b]) (0, 0, 0)"

lemma common_prefix_le: "common_prefix xs ys \<le> length xs"
  by (induction xs ys rule: common_prefix.induct) auto

lemma fold_longest_bound:
  "besti + bestsize \<le> length a \<Longrightarrow> \<forall>p \<in> set ps. fst p < length a \<Longrightarrow>
   fold (longest_step a b) ps (besti, bestj, bestsize) = (i, j, k) \<Longrightarrow> i + k \<le> length a"
proof (induction ps arbitrary: besti bestj bestsize)
  case Nil
  then show ?case by simp
next
  case (Cons p ps)
  obtain i' j' where p: "p = (i', j')" by (cases p)
  have "common_prefix (drop i' a) (drop j' b) \<le> length a - i'"
    using common_prefix_le[of "drop i' a" "drop j' b"] by simp
  moreover have "i' < length a" using Cons.prems(2) p by simp
  ultimately have "i' + common_prefix (drop i' a) (drop j' b) \<le> length a" by simp
  with Cons show ?case by (simp add: p Let_def split: if_splits)
qed

lemma find_longest_match_bound:
  "find_longest_match a b = (i, j, k) \<Longrightarrow> i + k \<le> length a"
  unfolding find_longest_match_def
  by (rule fold_longest_bound[where besti=0 and bestsize=0]) auto

function matching_size :: "'a list \<Rightarrow> 'a list \<Rightarrow> nat" where
  "matching_size a b =
     (case find_longest_match a b of (i, j, k) \<Rightarrow>
        if k = 0 then 0
        else k + matching_size (take i a) (take j b)
               + matching_size (drop (i + k) a) (drop (j + k) b))"
  by pat_completeness auto
termination
proof (relation "measure (\<lambda>(a, b). length a)")
  show "wf (measure (\<lambda>(a, b). length a))" by simp
next
  fix a b :: "'a list" and i y j k
  assume "(i, y) = find_longest_match a b" "(j, k) = y" "k \<noteq> 0"
  then have "find_longest_match a b = (i, j, k)" by simp
  from find_longest_match_bound[OF this] \<open>k \<noteq> 0\<close>
  show "((take i a, take j b), (a, b)) \<in> measure (\<lambda>(a, b). length a)" by simp
next
  fix a b :: "'a list" and i y j k
  assume "(i, y) = find_longest_match a b" "(j, k) = y" "k \<noteq> 0"
  then have "find_longest_match a b = (i, j, k)" by simp
  from find_longest_match_bound[OF this] \<open>k \<noteq> 0\<close>
  show "((drop (i + k) a, drop (j + k) b), (a, b)) \<in> measure (\<lambda>(a, b). length a)" by simp
qed

definition ratio :: similarity where
  "ratio a b =
     (let total = length a + length b
      in if total \<noteq> 0 then 2 * of_nat (matching_size a b) / of_nat total else 1)"

subsection \<open>Example entries\<close>

abbreviation sugar :: entry where
  "sugar \<equiv> [(''id'', JNum 1), (''ingredient'', JStr ''Sugar''), (''category'', JStr ''Sweetener'')]"

abbreviation salt :: entry where
  "salt \<equiv> [(''id'', JNum 2), (''ingredient'', JStr ''Salt''), (''category'', JStr ''Mineral'')]"

abbreviation cane_sugar :: entry where
  "cane_sugar \<equiv> [(''id'', JNum 3), (''ingredient'', JStr ''Cane Sugar''), (''category'', JStr ''Sweetener'')]"

text \<open>A second entry whose name normalises to \<^verbatim>\<open>sugar\<close>.\<close>

abbreviation sugar_again :: entry where
  "sugar_again \<equiv> [(''id'', JNum 5), (''ingredient'', JStr '' SUGAR''), (''category'', JStr ''Carbohydrate'')]"




subsection \<open>Names used in the statements\<close>

text \<open>The key under which the construction loop files an entry.\<close>

definition normalised_name :: "entry \<Rightarrow> string option" where
  "normalised_name entry =
     (case map_of entry ''ingredient'' of
        Some (JStr s) \<Rightarrow> Some (strip (lower s))
      | _ \<Rightarrow> None)"

text \<open>The call \<^verbatim>\<open>fuzzy_match_ingredient(name)\<close> of the retrieval loop.\<close>

abbreviation match_one :: "similarity \<Rightarrow> lookup \<Rightarrow> string \<Rightarrow> entry option" where
  "match_one sim LOOKUP name \<equiv> fuzzy_match_ingredient sim LOOKUP name default_threshold"

text \<open>The records the candidates match, in input order, repetitions included.\<close>

definition match_results :: "similarity \<Rightarrow> lookup \<Rightarrow> string list \<Rightarrow> entry list" where
  "match_results sim LOOKUP names = List.map_filter (match_one sim LOOKUP) names"

text \<open>
  The records of a list whose id is not in \<open>seen\<close> and not the id of an earlier record of
  the list.
\<close>

fun fresh_records :: "json set \<Rightarrow> entry list \<Rightarrow> entry list" where
  "fresh_records seen [] = []"
| "fresh_records seen (r # rs) =
     (case map_of r ''id'' of
        None \<Rightarrow> fresh_records seen rs
      | Some i \<Rightarrow> if i \<in> seen then fresh_records seen rs
                  else r # fresh_records (insert i seen) rs)"

section \<open>Properties\<close>

subsection \<open>Supporting facts\<close>

lemma map_of_distinct_mem:
  "distinct (map fst L) \<Longrightarrow> (k, v) \<in> set L \<Longrightarrow> map_of L k = Some v"
  by simp

lemma map_of_None_iff: "map_of L k = None \<longleftrightarrow> k \<notin> fst ` set L"
  by (simp add: map_of_eq_None_iff)

text \<open>\<^const>\<open>str_in\<close> is the contiguous-block relation.\<close>

lemma str_in_sublist: "str_in x y \<longleftrightarrow> (\<exists>ps ss. y = ps @ x @ ss)"
proof -
  have "str_in x y \<longleftrightarrow> sublist x y"
    by (induction y) (simp_all add: sublist_Cons_right)
  then show ?thesis by (simp add: sublist_def)
qed

lemma str_in_Nil [simp]: "str_in [] y"
  by (cases y) simp_all

lemma containment_scan_first:
  assumes "\<forall>(k, r) \<in> set before. \<not> str_in k n \<and> \<not> str_in n k"
    and "str_in key n \<or> str_in n key"
  shows "containment_scan n (before @ (key, record) # after) = Some record"
  using assms by (induction before) auto

subsection \<open>The three tiers\<close>

text \<open>
  C1. A candidate whose normalised form (lower-cased, then stripped) is a key of the lookup
  dict gets the record stored under that key, whatever the containment scan and the
  similarity scores of the other keys would give, for every similarity function and every
  threshold.
\<close>

theorem exact_match_first:
  assumes "distinct (map fst LOOKUP)"
    and "(key, record) \<in> set LOOKUP"
    and "strip (lower name) = key"
  shows "fuzzy_match_ingredient sim LOOKUP name threshold = Some record"
proof -
  from assms(1,2) have "map_of LOOKUP key = Some record"
    by (rule map_of_distinct_mem)
  with assms(3) show ?thesis
    by (simp add: fuzzy_match_ingredient_def)
qed

text \<open>
  The candidate \<^verbatim>\<open>" SUGAR "\<close> against the keys \<^verbatim>\<open>cane sugar\<close>, \<^verbatim>\<open>sugar\<close>: the
  first key contains the candidate and would win tier 2; the exact key wins.
\<close>

theorem exact_match_first_witness:
  "distinct (map fst [(''cane sugar'', cane_sugar), (''sugar'', sugar)])
   \<and> (''sugar'', sugar) \<in> set [(''cane sugar'', cane_sugar), (''sugar'', sugar)]
   \<and> strip (lower '' SUGAR '') = ''sugar''
   \<and> containment_scan ''sugar'' [(''cane sugar'', cane_sugar), (''sugar'', sugar)] = Some cane_sugar
   \<and> fuzzy_match_ingredient ratio [(''cane sugar'', cane_sugar), (''sugar'', sugar)]
        '' SUGAR '' default_threshold = Some sugar"
proof -
  have h1: "distinct (map fst [(''cane sugar'', cane_sugar), (''sugar'', sugar)])"
    by simp
  have h2: "(''sugar'', sugar) \<in> set [(''cane sugar'', cane_sugar), (''sugar'', sugar)]"
    by simp
  have h3: "strip (lower '' SUGAR '') = ''sugar''"
    by code_simp
  have h4: "containment_scan ''sugar'' [(''cane sugar'', cane_sugar), (''sugar'', sugar)]
            = Some cane_sugar"
    by simp
  from h1 h2 h3 h4 exact_match_first[OF h1 h2 h3] show ?thesis
    by blast
qed

text \<open>
  C2. When the normalised candidate is no key, the keys are visited in insertion order and
  the record of the first key that is a substring of the normalised candidate, or has it as
  a substring, is returned: the keys before it do not qualify, and nothing after it is
  looked at.
\<close>

theorem containment_first_key_wins:
  assumes "strip (lower name) \<notin> fst ` set LOOKUP"
    and "LOOKUP = before @ (key, record) # after"
    and "\<forall>(k, r) \<in> set before. \<not> str_in k (strip (lower name)) \<and> \<not> str_in (strip (lower name)) k"
    and "str_in key (strip (lower name)) \<or> str_in (strip (lower name)) key"
  shows "fuzzy_match_ingredient sim LOOKUP name threshold = Some record"
proof -
  from assms(1) have "map_of LOOKUP (strip (lower name)) = None"
    by (simp add: map_of_None_iff)
  moreover from assms(2-4) have "containment_scan (strip (lower name)) LOOKUP = Some record"
    by (simp add: containment_scan_first)
  ultimately show ?thesis
    by (simp add: fuzzy_match_ingredient_def)
qed

text \<open>
  The candidate \<^verbatim>\<open>Cane Sugar Syrup\<close>: the key \<^verbatim>\<open>salt\<close> does not qualify; the
  key \<^verbatim>\<open>sugar\<close> is a substring of the candidate and wins, although the longer key
  \<^verbatim>\<open>cane sugar\<close>, which stands after it, is a substring too.
\<close>

theorem containment_first_key_wins_witness:
  "strip (lower ''Cane Sugar Syrup'')
     \<notin> fst ` set [(''salt'', salt), (''sugar'', sugar), (''cane sugar'', cane_sugar)]
   \<and> \<not> str_in ''salt'' (strip (lower ''Cane Sugar Syrup''))
   \<and> \<not> str_in (strip (lower ''Cane Sugar Syrup'')) ''salt''
   \<and> str_in ''sugar'' (strip (lower ''Cane Sugar Syrup''))
   \<and> str_in ''cane sugar'' (strip (lower ''Cane Sugar Syrup''))
   \<and> fuzzy_match_ingredient ratio
        [(''salt'', salt), (''sugar'', sugar), (''cane sugar'', cane_sugar)]
        ''Cane Sugar Syrup'' default_threshold = Some sugar"
proof -
  have n: "strip (lower ''Cane Sugar Syrup'') = ''cane sugar syrup''"
    by code_simp
  have h1: "strip (lower ''Cane Sugar Syrup'')
            \<notin> fst ` set [(''salt'', salt), (''sugar'', sugar), (''cane sugar'', cane_sugar)]"
    by (simp add: n)
  have h2: "[(''salt'', salt), (''sugar'', sugar), (''cane sugar'', cane_sugar)]
            = [(''salt'', salt)] @ (''sugar'', sugar) # [(''cane sugar'', cane_sugar)]"
    by simp
  have a: "\<not> str_in ''salt'' (strip (lower ''Cane Sugar Syrup''))"
    by (simp add: n)
  have b: "\<not> str_in (strip (lower ''Cane Sugar Syrup'')) ''salt''"
    by (simp add: n)
  have h3: "\<forall>(k, r) \<in> set [(''salt'', salt)].
              \<not> str_in k (strip (lower ''Cane Sugar Syrup''))
              \<and> \<not> str_in (strip (lower ''Cane Sugar Syrup'')) k"
    using a b by simp
  have c: "str_in ''sugar'' (strip (lower ''Cane Sugar Syrup''))"
    by (simp add: n)
  have d: "str_in ''cane sugar'' (strip (lower ''Cane Sugar Syrup''))"
    by (simp add: n)
  from c have h4: "str_in ''sugar'' (strip (lower ''Cane Sugar Syrup''))
                   \<or> str_in (strip (lower ''Cane Sugar Syrup'')) ''sugar''"
    by simp
  from h1 a b c d containment_first_key_wins[OF h1 h2 h3 h4] show ?thesis
    by blast
qed

text \<open>
  C10. A candidate that normalises to the empty string, against a non-empty lookup dict
  without the empty key, gets the record of the first key in insertion order: the empty
  string is a substring of every key, so tier 2 stops at the first one. The result is never
  \<^verbatim>\<open>None\<close>.
\<close>

theorem blank_candidate_first_key:
  assumes "strip (lower name) = []"
    and "[] \<notin> fst ` set LOOKUP"
    and "LOOKUP = (key, record) # rest"
  shows "fuzzy_match_ingredient sim LOOKUP name threshold = Some record"
proof -
  from assms(1,2) have "map_of LOOKUP (strip (lower name)) = None"
    by (simp add: map_of_None_iff)
  moreover from assms(1,3) have "containment_scan (strip (lower name)) LOOKUP = Some record"
    by simp
  ultimately show ?thesis
    by (simp add: fuzzy_match_ingredient_def)
qed

theorem blank_candidate_first_key_witness:
  "strip (lower ''   '') = []
   \<and> [] \<notin> fst ` set [(''salt'', salt), (''sugar'', sugar)]
   \<and> fuzzy_match_ingredient ratio [(''salt'', salt), (''sugar'', sugar)] ''   '' default_threshold
       = Some salt"
proof -
  have h1: "strip (lower ''   '') = []"
    by code_simp
  have h2: "[] \<notin> fst ` set [(''salt'', salt), (''sugar'', sugar)]"
    by simp
  have h3: "[(''salt'', salt), (''sugar'', sugar)] = (''salt'', salt) # [(''sugar'', sugar)]"
    by simp
  from h1 h2 blank_candidate_first_key[OF h1 h2 h3] show ?thesis
    by blast
qed

subsection \<open>The lookup dict\<close>

lemma find_append_case:
  "List.find P (xs @ ys) = (case List.find P xs of Some x \<Rightarrow> Some x | None \<Rightarrow> List.find P ys)"
  by (induction xs) auto

lemma find_Some_P: "List.find P xs = Some x \<Longrightarrow> P x \<and> x \<in> set xs"
  by (induction xs) (auto split: if_splits)

lemma build_lookup_distinct:
  "build_lookup db L0 = Inr L \<Longrightarrow> distinct (map fst L0) \<Longrightarrow> distinct (map fst L)"
  by (induction db arbitrary: L0)
     (auto simp: distinct_update split: option.splits json.splits)

lemma build_lookup_map_of:
  "build_lookup db L0 = Inr L \<Longrightarrow>
   map_of L k = (case List.find (\<lambda>e. normalised_name e = Some k) (rev db) of
                   Some e \<Rightarrow> Some e | None \<Rightarrow> map_of L0 k)"
proof (induction db arbitrary: L0)
  case Nil
  then show ?case by simp
next
  case (Cons e db)
  then show ?case
    by (auto simp: normalised_name_def update_conv' find_append_case
             split: option.splits json.splits)
qed

lemma built_lookup_distinct:
  "INGREDIENT_LOOKUP db = Inr L \<Longrightarrow> distinct (map fst L)"
  by (auto simp: INGREDIENT_LOOKUP_def dest: build_lookup_distinct)

lemma built_lookup_map_of:
  "INGREDIENT_LOOKUP db = Inr L \<Longrightarrow>
   map_of L k = List.find (\<lambda>e. normalised_name e = Some k) (rev db)"
  by (auto simp: INGREDIENT_LOOKUP_def dest!: build_lookup_map_of[where k=k] split: option.splits)

lemma built_lookup_records:
  assumes "INGREDIENT_LOOKUP db = Inr L" and "(k, r) \<in> set L"
  shows "normalised_name r = Some k \<and> r \<in> set db"
proof -
  from assms have "map_of L k = Some r"
    by (simp add: built_lookup_distinct)
  with assms(1) have "List.find (\<lambda>e. normalised_name e = Some k) (rev db) = Some r"
    by (simp add: built_lookup_map_of)
  then show ?thesis by (auto dest: find_Some_P)
qed

text \<open>
  C6. The keys of the lookup dict built from a database are pairwise distinct, so every key
  stands for one record, and the record under a key is the last entry of the database whose
  name normalises to that key.
\<close>

theorem last_write_wins:
  assumes "INGREDIENT_LOOKUP INGREDIENT_DB = Inr LOOKUP"
  shows "distinct (map fst LOOKUP)
         \<and> map_of LOOKUP key
             = List.find (\<lambda>entry. normalised_name entry = Some key) (rev INGREDIENT_DB)"
  using assms by (simp add: built_lookup_distinct built_lookup_map_of)

text \<open>
  Two entries named \<^verbatim>\<open>Sugar\<close> and \<^verbatim>\<open> SUGAR\<close> share the key \<^verbatim>\<open>sugar\<close>; the
  second one is stored.
\<close>

theorem last_write_wins_witness:
  "INGREDIENT_LOOKUP [sugar, salt, sugar_again] = Inr [(''sugar'', sugar_again), (''salt'', salt)]
   \<and> distinct (map fst [(''sugar'', sugar_again), (''salt'', salt)])
   \<and> List.find (\<lambda>entry. normalised_name entry = Some ''sugar'') (rev [sugar, salt, sugar_again])
       = Some sugar_again
   \<and> map_of [(''sugar'', sugar_again), (''salt'', salt)] ''sugar'' = Some sugar_again"
proof -
  have h: "INGREDIENT_LOOKUP [sugar, salt, sugar_again]
           = Inr [(''sugar'', sugar_again), (''salt'', salt)]"
    by code_simp
  have f: "List.find (\<lambda>entry. normalised_name entry = Some ''sugar'') (rev [sugar, salt, sugar_again])
           = Some sugar_again"
    by code_simp
  from last_write_wins[OF h, of "''sugar''"] h f show ?thesis
    by simp
qed

subsection \<open>The retrieval loop\<close>

lemma retrieve_step_lookup:
  "retrieve_step sim name s = Inr s' \<Longrightarrow> lookup_global s' = lookup_global s"
  by (auto simp: retrieve_step_def split: option.splits if_splits)

lemma retrieve_loop_lookup:
  "retrieve_loop sim names s = Inr s' \<Longrightarrow> lookup_global s' = lookup_global s"
proof (induction names arbitrary: s)
  case Nil then show ?case by simp
next
  case (Cons n names)
  then show ?case
    by (auto split: sum.splits dest: retrieve_step_lookup)
qed

lemma retrieve_step_unmatched:
  "retrieve_step sim name s = Inr s' \<Longrightarrow>
   unmatched s' = unmatched s @ (if match_one sim (lookup_global s) name = None then [name] else [])"
  by (auto simp: retrieve_step_def split: option.splits if_splits)

lemma retrieve_loop_unmatched:
  "retrieve_loop sim names s = Inr s' \<Longrightarrow>
   unmatched s' = unmatched s @ filter (\<lambda>n. match_one sim (lookup_global s) n = None) names"
proof (induction names arbitrary: s)
  case Nil then show ?case by simp
next
  case (Cons n names)
  from Cons.prems obtain s1 where s1: "retrieve_step sim n s = Inr s1"
    and rest: "retrieve_loop sim names s1 = Inr s'"
    by (auto split: sum.splits)
  from Cons.IH[OF rest] retrieve_step_unmatched[OF s1] retrieve_step_lookup[OF s1]
  show ?case by simp
qed

lemma containment_scan_mem:
  "containment_scan n L = Some r \<Longrightarrow> r \<in> snd ` set L"
  by (induction L) (auto split: if_splits)

lemma best_scan_mem:
  "best_scan sim n L (bs, br) = (bs', Some r) \<Longrightarrow> br = Some r \<or> r \<in> snd ` set L"
proof (induction L arbitrary: bs br)
  case Nil
  then show ?case by simp
next
  case (Cons p L)
  obtain k r0 where p: "p = (k, r0)" by (cases p)
  show ?case
  proof (cases "sim n k > bs")
    case True
    with Cons.prems p have "best_scan sim n L (sim n k, Some r0) = (bs', Some r)" by simp
    from Cons.IH[OF this] p show ?thesis by auto
  next
    case False
    with Cons.prems p have "best_scan sim n L (bs, br) = (bs', Some r)" by simp
    from Cons.IH[OF this] show ?thesis by auto
  qed
qed

lemma fuzzy_match_mem:
  assumes "fuzzy_match_ingredient sim L name t = Some r"
  shows "r \<in> snd ` set L"
proof -
  let ?n = "strip (lower name)"
  show ?thesis
  proof (cases "map_of L ?n")
    case (Some r')
    with assms have "r' = r" by (simp add: fuzzy_match_ingredient_def)
    with Some show ?thesis by (auto dest: map_of_SomeD intro: rev_image_eqI)
  next
    case None
    show ?thesis
    proof (cases "containment_scan ?n L")
      case (Some r')
      with None assms have "r' = r" by (simp add: fuzzy_match_ingredient_def)
      with Some show ?thesis by (auto dest: containment_scan_mem)
    next
      case N2: None
      obtain bs br where b: "best_scan sim ?n L (0, None) = (bs, br)" by (cases "best_scan sim ?n L (0, None)")
      with None N2 assms have "br = Some r"
        by (simp add: fuzzy_match_ingredient_def split: if_splits)
      with b show ?thesis by (auto dest: best_scan_mem)
    qed
  qed
qed

lemma retrieve_step_matched:
  assumes "retrieve_step sim name s = Inr s'" and "[] \<notin> snd ` set (lookup_global s)"
  shows "matched s' = matched s @ fresh_records (seen_ids s) (case match_one sim (lookup_global s) name of None \<Rightarrow> [] | Some r \<Rightarrow> [r])
     \<and> seen_ids s' = seen_ids s \<union> {i. \<exists>r. match_one sim (lookup_global s) name = Some r \<and> map_of r ''id'' = Some i}
     \<and> (\<forall>r. match_one sim (lookup_global s) name = Some r \<longrightarrow> map_of r ''id'' \<noteq> None)"
proof (cases "match_one sim (lookup_global s) name")
  case None
  with assms show ?thesis by (auto simp: retrieve_step_def)
next
  case (Some r)
  then have "r \<in> snd ` set (lookup_global s)" by (rule fuzzy_match_mem)
  with assms(2) have "r \<noteq> []" by metis
  with Some assms(1) show ?thesis
    by (auto simp: retrieve_step_def split: option.splits if_splits)
qed

lemma retrieve_loop_matched:
  "retrieve_loop sim names s = Inr s' \<Longrightarrow> [] \<notin> snd ` set (lookup_global s) \<Longrightarrow>
   matched s' = matched s @ fresh_records (seen_ids s) (match_results sim (lookup_global s) names)
   \<and> (\<forall>r \<in> set (match_results sim (lookup_global s) names). map_of r ''id'' \<noteq> None)"
proof (induction names arbitrary: s)
  case Nil
  then show ?case by (simp add: match_results_def List.map_filter_simps)
next
  case (Cons n names)
  from Cons.prems obtain s1 where s1: "retrieve_step sim n s = Inr s1"
    and rest: "retrieve_loop sim names s1 = Inr s'"
    by (auto split: sum.splits)
  note L = retrieve_step_lookup[OF s1]
  note step = retrieve_step_matched[OF s1 Cons.prems(2)]
  from Cons.prems(2) L have ne: "[] \<notin> snd ` set (lookup_global s1)" by simp
  note IH = Cons.IH[OF rest ne, unfolded L]
  show ?case
  proof (cases "match_one sim (lookup_global s) n")
    case None
    with step IH show ?thesis by (simp add: match_results_def List.map_filter_simps)
  next
    case (Some r)
    with step obtain i where i: "map_of r ''id'' = Some i" by auto
    from step Some i have seen: "seen_ids s1 = insert i (seen_ids s)" by auto
    from step Some have m1: "matched s1 = matched s @ fresh_records (seen_ids s) [r]" by simp
    from IH m1 seen Some i show ?thesis
      by (cases "i \<in> seen_ids s") (simp_all add: match_results_def List.map_filter_simps insert_absorb)
  qed
qed

lemma fresh_records_subseq: "subseq (fresh_records seen rs) rs"
  by (induction rs arbitrary: seen) (simp_all add: list_emb_Cons split: option.splits)

lemma fresh_records_ids:
  "r \<in> set (fresh_records seen rs) \<Longrightarrow> \<exists>i. map_of r ''id'' = Some i \<and> i \<notin> seen \<and> r \<in> set rs"
proof (induction rs arbitrary: seen)
  case Nil
  then show ?case by simp
next
  case (Cons r0 rs)
  show ?case
  proof (cases "map_of r0 ''id''")
    case None
    with Cons.prems have "r \<in> set (fresh_records seen rs)" by simp
    from Cons.IH[OF this] show ?thesis by auto
  next
    case (Some i0)
    show ?thesis
    proof (cases "i0 \<in> seen")
      case True
      with Some Cons.prems have "r \<in> set (fresh_records seen rs)" by simp
      from Cons.IH[OF this] show ?thesis by auto
    next
      case False
      with Some Cons.prems have "r = r0 \<or> r \<in> set (fresh_records (insert i0 seen) rs)" by simp
      then show ?thesis
      proof
        assume "r = r0"
        with Some False show ?thesis by simp
      next
        assume "r \<in> set (fresh_records (insert i0 seen) rs)"
        from Cons.IH[OF this] show ?thesis by auto
      qed
    qed
  qed
qed

lemma fresh_records_distinct: "distinct (map (\<lambda>r. map_of r ''id'') (fresh_records seen rs))"
proof (induction rs arbitrary: seen)
  case Nil
  then show ?case by simp
next
  case (Cons r0 rs)
  show ?case
  proof (cases "map_of r0 ''id''")
    case None
    with Cons.IH show ?thesis by simp
  next
    case (Some i0)
    have "map_of r0 ''id'' \<notin> (\<lambda>r. map_of r ''id'') ` set (fresh_records (insert i0 seen) rs)"
    proof
      assume "map_of r0 ''id'' \<in> (\<lambda>r. map_of r ''id'') ` set (fresh_records (insert i0 seen) rs)"
      then obtain r where r: "r \<in> set (fresh_records (insert i0 seen) rs)"
        and "map_of r ''id'' = map_of r0 ''id''" by auto
      with Some fresh_records_ids[OF r] show False by simp
    qed
    with Some Cons.IH show ?thesis by simp
  qed
qed

lemma fresh_records_first:
  "r \<in> set (fresh_records seen rs) \<Longrightarrow>
   List.find (\<lambda>r'. map_of r' ''id'' = map_of r ''id'') rs = Some r"
proof (induction rs arbitrary: seen)
  case Nil
  then show ?case by simp
next
  case (Cons r0 rs)
  show ?case
  proof (cases "r = r0")
    case True
    then show ?thesis by simp
  next
    case False
    from fresh_records_ids[OF Cons.prems] obtain i where i: "map_of r ''id'' = Some i" "i \<notin> seen"
      by auto
    show ?thesis
    proof (cases "map_of r0 ''id''")
      case None
      with Cons.prems have "r \<in> set (fresh_records seen rs)" by simp
      from Cons.IH[OF this] None i show ?thesis by simp
    next
      case (Some i0)
      show ?thesis
      proof (cases "i0 \<in> seen")
        case True
        with Some Cons.prems have "r \<in> set (fresh_records seen rs)" by simp
        from Cons.IH[OF this] Some True i show ?thesis by auto
      next
        case F: False
        with Some Cons.prems False have r: "r \<in> set (fresh_records (insert i0 seen) rs)" by simp
        from fresh_records_ids[OF r] i have "i \<noteq> i0" by auto
        with Cons.IH[OF r] Some i show ?thesis by simp
      qed
    qed
  qed
qed

lemma fresh_records_covers:
  "r \<in> set rs \<Longrightarrow> map_of r ''id'' = Some i \<Longrightarrow> i \<notin> seen \<Longrightarrow>
   \<exists>r' \<in> set (fresh_records seen rs). map_of r' ''id'' = Some i"
proof (induction rs arbitrary: seen)
  case Nil
  then show ?case by simp
next
  case (Cons r0 rs)
  show ?case
  proof (cases "map_of r0 ''id''")
    case None
    with Cons.prems have "r \<in> set rs" by auto
    from Cons.IH[OF this Cons.prems(2,3)] None show ?thesis by simp
  next
    case (Some i0)
    show ?thesis
    proof (cases "i0 = i")
      case True
      with Some Cons.prems(3) show ?thesis by simp
    next
      case False
      with Some Cons.prems have r: "r \<in> set rs" by auto
      show ?thesis
      proof (cases "i0 \<in> seen")
        case True
        with Cons.IH[OF r Cons.prems(2,3)] Some show ?thesis by simp
      next
        case F: False
        from False Cons.prems(3) have "i \<notin> insert i0 seen" by simp
        from Cons.IH[OF r Cons.prems(2) this] Some F show ?thesis by simp
      qed
    qed
  qed
qed


lemma built_lookup_nonempty:
  assumes "INGREDIENT_LOOKUP db = Inr L"
  shows "[] \<notin> snd ` set L"
proof
  assume "[] \<in> snd ` set L"
  then obtain k where "(k, []) \<in> set L" by auto
  from built_lookup_records[OF assms this] show False
    by (simp add: normalised_name_def)
qed

lemma retrieve_knowledge_Inr:
  assumes "retrieve_knowledge sim L names = Inr (m, u)"
  obtains s where "retrieve_loop sim names (initial_state L) = Inr s"
    and "m = matched s" and "u = unmatched s"
  using assms by (auto simp: retrieve_knowledge_def split: sum.splits)

lemma retrieve_knowledge_matched:
  assumes "INGREDIENT_LOOKUP db = Inr L"
    and "retrieve_knowledge sim L names = Inr (m, u)"
  shows "m = fresh_records {} (match_results sim L names)"
    and "\<forall>r \<in> set (match_results sim L names). map_of r ''id'' \<noteq> None"
proof -
  from assms(2) obtain s where s: "retrieve_loop sim names (initial_state L) = Inr s"
    and m: "m = matched s"
    by (rule retrieve_knowledge_Inr)
  from built_lookup_nonempty[OF assms(1)]
  have "[] \<notin> snd ` set (lookup_global (initial_state L))"
    by (simp add: initial_state_def)
  from retrieve_loop_matched[OF s this] m
  show "m = fresh_records {} (match_results sim L names)"
    and "\<forall>r \<in> set (match_results sim L names). map_of r ''id'' \<noteq> None"
    by (simp_all add: initial_state_def)
qed

lemma retrieve_knowledge_unmatched:
  assumes "retrieve_knowledge sim L names = Inr (m, u)"
  shows "u = filter (\<lambda>name. match_one sim L name = None) names"
proof -
  from assms obtain s where s: "retrieve_loop sim names (initial_state L) = Inr s"
    and u: "u = unmatched s"
    by (rule retrieve_knowledge_Inr)
  from retrieve_loop_unmatched[OF s] u show ?thesis
    by (simp add: initial_state_def)
qed

lemma match_results_mem:
  "r \<in> set (match_results sim L names) \<longleftrightarrow> (\<exists>name \<in> set names. match_one sim L name = Some r)"
  by (induction names) (auto simp: match_results_def List.map_filter_simps split: option.splits)

text \<open>
  C7. When retrieval returns, the unmatched list is the input list restricted to the
  candidates for which the matcher returns \<^verbatim>\<open>None\<close>: each of them is there as it was
  given, not normalised, and in the order of the input.
\<close>

theorem unmatched_verbatim_in_order:
  assumes "retrieve_knowledge sim LOOKUP ingredient_names = Inr (matched_records, unmatched_names)"
  shows "unmatched_names
         = filter (\<lambda>name. fuzzy_match_ingredient sim LOOKUP name default_threshold = None)
             ingredient_names"
  using assms by (rule retrieve_knowledge_unmatched)

theorem unmatched_verbatim_in_order_witness:
  "retrieve_knowledge ratio [(''sugar'', sugar), (''salt'', salt)]
     ['' Water'', ''Sugar'', ''RICE'', ''suger''] = Inr ([sugar], ['' Water'', ''RICE''])
   \<and> filter (\<lambda>name. fuzzy_match_ingredient ratio [(''sugar'', sugar), (''salt'', salt)] name
                     default_threshold = None) ['' Water'', ''Sugar'', ''RICE'', ''suger'']
       = ['' Water'', ''RICE'']"
proof -
  have h: "retrieve_knowledge ratio [(''sugar'', sugar), (''salt'', salt)]
             ['' Water'', ''Sugar'', ''RICE'', ''suger''] = Inr ([sugar], ['' Water'', ''RICE''])"
    by code_simp
  from unmatched_verbatim_in_order[OF h] h show ?thesis
    by simp
qed

text \<open>
  C4. For a lookup dict built from a database, when retrieval returns: the ids of the
  matched list are pairwise distinct; the matched list is a subsequence of the records the
  candidates match, so it keeps their order; each record in it is the first one among them
  with its id; every id among them is the id of a record of the matched list; and a
  candidate that matches a record is not in the unmatched list, whether its record was
  appended or absorbed.
\<close>

theorem matched_deduplicated_by_id:
  assumes "INGREDIENT_LOOKUP INGREDIENT_DB = Inr LOOKUP"
    and "retrieve_knowledge sim LOOKUP ingredient_names = Inr (matched_records, unmatched_names)"
  shows "distinct (map (\<lambda>record. map_of record ''id'') matched_records)
         \<and> subseq matched_records (match_results sim LOOKUP ingredient_names)
         \<and> (\<forall>record \<in> set matched_records.
               List.find (\<lambda>r. map_of r ''id'' = map_of record ''id'')
                 (match_results sim LOOKUP ingredient_names) = Some record)
         \<and> (\<forall>r \<in> set (match_results sim LOOKUP ingredient_names).
               \<exists>record \<in> set matched_records. map_of record ''id'' = map_of r ''id'')
         \<and> (\<forall>name \<in> set ingredient_names.
               fuzzy_match_ingredient sim LOOKUP name default_threshold \<noteq> None
               \<longrightarrow> name \<notin> set unmatched_names)"
proof -
  let ?rs = "match_results sim LOOKUP ingredient_names"
  note m = retrieve_knowledge_matched[OF assms]
  have 1: "distinct (map (\<lambda>record. map_of record ''id'') matched_records)"
    unfolding m(1) by (rule fresh_records_distinct)
  have 2: "subseq matched_records ?rs"
    unfolding m(1) by (rule fresh_records_subseq)
  have 3: "List.find (\<lambda>r. map_of r ''id'' = map_of m ''id'') ?rs = Some m"
    if "m \<in> set matched_records" for m
    using that unfolding m(1) by (rule fresh_records_first)
  have 4: "\<exists>m \<in> set matched_records. map_of m ''id'' = map_of r ''id''"
    if r: "r \<in> set ?rs" for r
  proof -
    from m(2) r obtain i where i: "map_of r ''id'' = Some i" by auto
    from fresh_records_covers[OF r i, of "{}"] i show ?thesis
      unfolding m(1) by simp
  qed
  have 5: "name \<notin> set unmatched_names"
    if "fuzzy_match_ingredient sim LOOKUP name default_threshold \<noteq> None" for name
    using that retrieve_knowledge_unmatched[OF assms(2)] by simp
  from 1 2 3 4 5 show ?thesis by blast
qed

text \<open>
  \<^verbatim>\<open>Sugar\<close>, \<^verbatim>\<open>sugar \<close> and the misspelt \<^verbatim>\<open>suger\<close> all match the record with
  id 1; it is in the matched list once, before the record of \<^verbatim>\<open>SALT\<close>.
\<close>

theorem matched_deduplicated_by_id_witness:
  "INGREDIENT_LOOKUP [sugar, salt] = Inr [(''sugar'', sugar), (''salt'', salt)]
   \<and> retrieve_knowledge ratio [(''sugar'', sugar), (''salt'', salt)]
       [''Sugar'', ''Water'', ''sugar '', ''SALT'', ''suger''] = Inr ([sugar, salt], [''Water''])
   \<and> match_results ratio [(''sugar'', sugar), (''salt'', salt)]
       [''Sugar'', ''Water'', ''sugar '', ''SALT'', ''suger''] = [sugar, sugar, salt, sugar]
   \<and> distinct (map (\<lambda>record. map_of record ''id'') [sugar, salt])
   \<and> subseq [sugar, salt] [sugar, sugar, salt, sugar]
   \<and> ''sugar '' \<notin> set [''Water'']"
proof -
  have h1: "INGREDIENT_LOOKUP [sugar, salt] = Inr [(''sugar'', sugar), (''salt'', salt)]"
    by code_simp
  have h2: "retrieve_knowledge ratio [(''sugar'', sugar), (''salt'', salt)]
              [''Sugar'', ''Water'', ''sugar '', ''SALT'', ''suger'']
            = Inr ([sugar, salt], [''Water''])"
    by code_simp
  have r: "match_results ratio [(''sugar'', sugar), (''salt'', salt)]
             [''Sugar'', ''Water'', ''sugar '', ''SALT'', ''suger''] = [sugar, sugar, salt, sugar]"
    by code_simp
  from matched_deduplicated_by_id[OF h1 h2] h1 h2 r show ?thesis
    by simp
qed

text \<open>
  C8. For a lookup dict built from a database, when retrieval returns, every candidate of
  the input is in exactly one of two cases: it is in the unmatched list, verbatim, and
  matches no record; or it is not in the unmatched list and the id of the record it matches
  is the id of a record of the matched list.
\<close>

theorem every_candidate_accounted_for:
  assumes "INGREDIENT_LOOKUP INGREDIENT_DB = Inr LOOKUP"
    and "retrieve_knowledge sim LOOKUP ingredient_names = Inr (matched_records, unmatched_names)"
    and "name \<in> set ingredient_names"
  shows "(name \<in> set unmatched_names
          \<and> fuzzy_match_ingredient sim LOOKUP name default_threshold = None)
         \<or> (name \<notin> set unmatched_names
             \<and> (\<exists>r record. fuzzy_match_ingredient sim LOOKUP name default_threshold = Some r
                   \<and> record \<in> set matched_records
                   \<and> map_of record ''id'' = map_of r ''id''))"
proof (cases "fuzzy_match_ingredient sim LOOKUP name default_threshold")
  case None
  with assms(3) retrieve_knowledge_unmatched[OF assms(2)] show ?thesis by simp
next
  case (Some r)
  with assms(3) have r: "r \<in> set (match_results sim LOOKUP ingredient_names)"
    by (auto simp: match_results_mem)
  note m = retrieve_knowledge_matched[OF assms(1,2)]
  from m(2) r obtain i where i: "map_of r ''id'' = Some i" by auto
  from fresh_records_covers[OF r i, of "{}"] i
  obtain m' where "m' \<in> set matched_records" "map_of m' ''id'' = map_of r ''id''"
    unfolding m(1) by auto
  moreover from Some retrieve_knowledge_unmatched[OF assms(2)]
  have "name \<notin> set unmatched_names" by simp
  ultimately show ?thesis using Some by blast
qed

theorem every_candidate_accounted_for_witness:
  "INGREDIENT_LOOKUP [sugar, salt] = Inr [(''sugar'', sugar), (''salt'', salt)]
   \<and> retrieve_knowledge ratio [(''sugar'', sugar), (''salt'', salt)]
       [''Sugar'', ''Water'', ''sugar ''] = Inr ([sugar], [''Water''])
   \<and> ''sugar '' \<in> set [''Sugar'', ''Water'', ''sugar '']
   \<and> ''sugar '' \<notin> set [''Water'']
   \<and> fuzzy_match_ingredient ratio [(''sugar'', sugar), (''salt'', salt)] ''sugar ''
       default_threshold = Some sugar"
proof -
  have h1: "INGREDIENT_LOOKUP [sugar, salt] = Inr [(''sugar'', sugar), (''salt'', salt)]"
    by code_simp
  have h2: "retrieve_knowledge ratio [(''sugar'', sugar), (''salt'', salt)]
              [''Sugar'', ''Water'', ''sugar ''] = Inr ([sugar], [''Water''])"
    by code_simp
  have h3: "''sugar '' \<in> set [''Sugar'', ''Water'', ''sugar '']"
    by simp
  have e: "fuzzy_match_ingredient ratio [(''sugar'', sugar), (''salt'', salt)] ''sugar ''
             default_threshold = Some sugar"
    by code_simp
  from every_candidate_accounted_for[OF h1 h2 h3] h1 h2 h3 e show ?thesis
    by simp
qed

subsection \<open>Retrieval on a store\<close>

lemma deref_update:
  "deref (h[a := x]) b = (if b < length h then (if a = b then Some x else Some (h ! b)) else None)"
  by (simp add: deref_def)

lemma deref_Some: "deref h a = Some x \<longleftrightarrow> a < length h \<and> h ! a = x"
  by (auto simp: deref_def)

lemma corresponds_update_unmatched:
  assumes "corresponds n g m u sn h s"
  shows "corresponds n g m u sn (h[u := Names (unmatched s @ [name])])
           (s\<lparr>unmatched := unmatched s @ [name]\<rparr>)"
  using assms by (auto simp: corresponds_def deref_Some)

lemma corresponds_update_matched:
  assumes "corresponds n g m u sn h s"
  shows "corresponds n g m u sn
           (h[m := Records (matched s @ [r]), sn := Ids (insert i (seen_ids s))])
           (s\<lparr>matched := matched s @ [r], seen_ids := insert i (seen_ids s)\<rparr>)"
  using assms by (auto simp: corresponds_def deref_Some)

lemma retrieve_step_heap_refines:
  assumes c: "corresponds n g m u sn h s"
  shows "case retrieve_step sim name s of
           Inl e \<Rightarrow> retrieve_step_heap sim g m u sn name h = (Some e, h)
         | Inr s' \<Rightarrow> (\<exists>h'. retrieve_step_heap sim g m u sn name h = (None, h')
                         \<and> length h' = length h \<and> take n h' = take n h
                         \<and> corresponds n g m u sn h' s')"
proof -
  from c have g: "deref h g = Some (Index (lookup_global s))"
    and m: "deref h m = Some (Records (matched s))"
    and u: "deref h u = Some (Names (unmatched s))"
    and sn: "deref h sn = Some (Ids (seen_ids s))"
    and ge: "n \<le> m" "n \<le> u" "n \<le> sn"
    by (simp_all add: corresponds_def)
  show ?thesis
  proof (cases "fuzzy_match_ingredient sim (lookup_global s) name default_threshold")
    case None
    then have 1: "retrieve_step sim name s = Inr (s\<lparr>unmatched := unmatched s @ [name]\<rparr>)"
      by (simp add: retrieve_step_def)
    from None g u
    have 2: "retrieve_step_heap sim g m u sn name h
             = (None, h[u := Names (unmatched s @ [name])])"
      by (simp add: retrieve_step_heap_def)
    from ge have "take n (h[u := Names (unmatched s @ [name])]) = take n h" by simp
    with 1 2 corresponds_update_unmatched[OF c, of name] show ?thesis by simp
  next
    case (Some r)
    show ?thesis
    proof (cases "r = []")
      case True
      with Some g c show ?thesis
        by (simp add: retrieve_step_def retrieve_step_heap_def)
    next
      case False
      show ?thesis
      proof (cases "map_of r ''id''")
        case None
        with Some False g show ?thesis
          by (simp add: retrieve_step_def retrieve_step_heap_def)
      next
        case (Some i)
        note i = this
        show ?thesis
        proof (cases "hashable i \<and> i \<notin> seen_ids s")
          case True
          with \<open>fuzzy_match_ingredient sim (lookup_global s) name default_threshold = Some r\<close>
            False i
          have 1: "retrieve_step sim name s
                   = Inr (s\<lparr>matched := matched s @ [r], seen_ids := insert i (seen_ids s)\<rparr>)"
            by (simp add: retrieve_step_def)
          from True \<open>fuzzy_match_ingredient sim (lookup_global s) name default_threshold = Some r\<close>
            False i g m sn
          have 2: "retrieve_step_heap sim g m u sn name h
                   = (None, h[m := Records (matched s @ [r]), sn := Ids (insert i (seen_ids s))])"
            by (simp add: retrieve_step_heap_def)
          from ge have "take n (h[m := Records (matched s @ [r]),
                                  sn := Ids (insert i (seen_ids s))]) = take n h"
            by simp
          with 1 2 corresponds_update_matched[OF c, of r i] show ?thesis by simp
        next
          case F: False
          with \<open>fuzzy_match_ingredient sim (lookup_global s) name default_threshold = Some r\<close>
            False i g m sn c
          show ?thesis
            by (auto simp: retrieve_step_def retrieve_step_heap_def)
        qed
      qed
    qed
  qed
qed

lemma retrieve_loop_heap_refines:
  assumes "corresponds n g m u sn h s"
  shows "\<exists>h'. length h' = length h \<and> take n h' = take n h
              \<and> (case retrieve_loop sim names s of
                    Inl e \<Rightarrow> retrieve_loop_heap sim g m u sn names h = (Some e, h')
                  | Inr s' \<Rightarrow> retrieve_loop_heap sim g m u sn names h = (None, h')
                              \<and> corresponds n g m u sn h' s')"
  using assms
proof (induction names arbitrary: h s)
  case Nil
  then show ?case by simp
next
  case (Cons name names)
  note step = retrieve_step_heap_refines[OF Cons.prems, of sim name]
  show ?case
  proof (cases "retrieve_step sim name s")
    case (Inl e)
    with step show ?thesis by simp
  next
    case (Inr s1)
    with step obtain h1 where h1: "retrieve_step_heap sim g m u sn name h = (None, h1)"
      and len: "length h1 = length h" and fr: "take n h1 = take n h"
      and c1: "corresponds n g m u sn h1 s1"
      by auto
    from Cons.IH[OF c1] obtain h' where len': "length h' = length h1"
      and fr': "take n h' = take n h1"
      and r: "case retrieve_loop sim names s1 of
                Inl e \<Rightarrow> retrieve_loop_heap sim g m u sn names h1 = (Some e, h')
              | Inr s' \<Rightarrow> retrieve_loop_heap sim g m u sn names h1 = (None, h')
                          \<and> corresponds n g m u sn h' s'"
      by blast
    from len len' fr fr' r Inr h1 show ?thesis
      by (intro exI[of _ h']) (simp split: sum.splits)
  qed
qed

lemma deref_take:
  assumes "take n h' = take n h" and "a < n"
  shows "deref h' a = deref h a"
proof -
  from assms(2) have "deref h' a = deref (take n h') a" "deref h a = deref (take n h) a"
    by (simp_all add: deref_def)
  with assms(1) show ?thesis by simp
qed

lemma retrieve_knowledge_heap_refines:
  assumes g: "deref h g = Some (Index L)"
    and run: "retrieve_knowledge_heap sim g names h = (r, h')"
  shows "take (length h) h' = h"
    and "length h' = length h + 3"
    and "returned_lists r h' = retrieve_knowledge sim L names"
    and "r = Inr (m, u) \<Longrightarrow> m = length h \<and> u = Suc (length h)"
proof -
  let ?n = "length h"
  let ?h3 = "h @ [Records [], Names [], Ids {}]"
  from g have "corresponds ?n g ?n (Suc ?n) (Suc (Suc ?n)) ?h3 (initial_state L)"
    by (auto simp: corresponds_def deref_Some initial_state_def nth_append)
  from retrieve_loop_heap_refines[OF this, of sim names]
  obtain h'' where len: "length h'' = length ?h3" and fr: "take ?n h'' = take ?n ?h3"
    and r: "case retrieve_loop sim names (initial_state L) of
              Inl e \<Rightarrow> retrieve_loop_heap sim g ?n (Suc ?n) (Suc (Suc ?n)) names ?h3 = (Some e, h'')
            | Inr s' \<Rightarrow> retrieve_loop_heap sim g ?n (Suc ?n) (Suc (Suc ?n)) names ?h3 = (None, h'')
                        \<and> corresponds ?n g ?n (Suc ?n) (Suc (Suc ?n)) h'' s'"
    by blast
  have res: "h' = h''
             \<and> returned_lists r h' = retrieve_knowledge sim L names
             \<and> (r = Inr (m, u) \<longrightarrow> m = ?n \<and> u = Suc ?n)"
  proof (cases "retrieve_loop sim names (initial_state L)")
    case (Inl e)
    with r have "retrieve_loop_heap sim g ?n (Suc ?n) (Suc (Suc ?n)) names ?h3 = (Some e, h'')"
      by simp
    with run have "r = Inl e" "h' = h''"
      by (simp_all add: retrieve_knowledge_heap_def alloc_def)
    with Inl show ?thesis
      by (simp add: returned_lists_def retrieve_knowledge_def)
  next
    case (Inr s')
    with r have l: "retrieve_loop_heap sim g ?n (Suc ?n) (Suc (Suc ?n)) names ?h3 = (None, h'')"
      and c: "corresponds ?n g ?n (Suc ?n) (Suc (Suc ?n)) h'' s'"
      by simp_all
    from l run have "r = Inr (?n, Suc ?n)" "h' = h''"
      by (simp_all add: retrieve_knowledge_heap_def alloc_def)
    with c Inr show ?thesis
      by (simp add: returned_lists_def retrieve_knowledge_def corresponds_def)
  qed
  from res have eq: "h' = h''"
    and val: "returned_lists r h' = retrieve_knowledge sim L names"
    and adr: "r = Inr (m, u) \<longrightarrow> m = ?n \<and> u = Suc ?n"
    by blast+
  from eq fr show "take (length h) h' = h" by simp
  from eq len show "length h' = length h + 3" by simp
  from val show "returned_lists r h' = retrieve_knowledge sim L names" .
  from adr show "r = Inr (m, u) \<Longrightarrow> m = length h \<and> u = Suc (length h)" by blast
qed

lemma returned_lists_take:
  assumes "take n h' = take n h" and "\<And>m u. r = Inr (m, u) \<Longrightarrow> m < n \<and> u < n"
  shows "returned_lists r h' = returned_lists r h"
proof (cases r)
  case (Inl e)
  then show ?thesis by (simp add: returned_lists_def)
next
  case (Inr p)
  obtain m u where p: "p = (m, u)" by (cases p)
  with Inr assms(2) have "m < n" "u < n" by simp_all
  with assms(1) have "deref h' m = deref h m" "deref h' u = deref h u"
    by (auto intro: deref_take)
  with Inr p show ?thesis by (simp add: returned_lists_def split: option.splits object.splits)
qed

text \<open>
  C9. On a store that holds the lookup dict at the address of the global, next to any
  other objects: a call of retrieval leaves every object that was in the store as it was,
  the dict among them, whether it returns or raises; what it returns is what the functional
  model returns, a function of the dict and the candidates alone. A second call, on the
  store the first one left behind, leaves that store as it was, returns lists equal to those
  of the first call, and the lists of the first call are still what they were.
\<close>

theorem retrieve_twice_on_store:
  assumes "deref h g = Some (Index LOOKUP)"
    and "retrieve_knowledge_heap sim g ingredient_names h = (r1, h1)"
    and "retrieve_knowledge_heap sim g ingredient_names h1 = (r2, h2)"
  shows "take (length h) h1 = h
         \<and> take (length h1) h2 = h1
         \<and> returned_lists r1 h1 = retrieve_knowledge sim LOOKUP ingredient_names
         \<and> returned_lists r2 h2 = returned_lists r1 h1
         \<and> returned_lists r1 h2 = returned_lists r1 h1"
proof -
  have frame1: "take (length h) h1 = h"
    using assms(1,2) by (rule retrieve_knowledge_heap_refines(1))
  have len1: "length h1 = length h + 3"
    using assms(1,2) by (rule retrieve_knowledge_heap_refines(2))
  have val1: "returned_lists r1 h1 = retrieve_knowledge sim LOOKUP ingredient_names"
    using assms(1,2) by (rule retrieve_knowledge_heap_refines(3))
  have adr1: "m < length h1 \<and> u < length h1" if "r1 = Inr (m, u)" for m u
    using retrieve_knowledge_heap_refines(4)[OF assms(1,2) that] len1 by simp
  from assms(1) have gl: "g < length h"
    by (simp add: deref_Some)
  from frame1 have t0: "take (length h) h1 = take (length h) h"
    by simp
  have "deref h1 g = deref h g"
    using t0 gl by (rule deref_take)
  with assms(1) have g1: "deref h1 g = Some (Index LOOKUP)"
    by simp
  have frame2: "take (length h1) h2 = h1"
    using g1 assms(3) by (rule retrieve_knowledge_heap_refines(1))
  have val2: "returned_lists r2 h2 = retrieve_knowledge sim LOOKUP ingredient_names"
    using g1 assms(3) by (rule retrieve_knowledge_heap_refines(3))
  from frame2 have t: "take (length h1) h2 = take (length h1) h1"
    by simp
  have keep: "returned_lists r1 h2 = returned_lists r1 h1"
    by (rule returned_lists_take[OF t adr1])
  from val1 val2 have same: "returned_lists r2 h2 = returned_lists r1 h1"
    by simp
  show ?thesis
    by (intro conjI frame1 frame2 val1 same keep)
qed

text \<open>
  A store with the dict and one more object; the first call allocates at 2, 3 and 4, the
  second at 5, 6 and 7.
\<close>

theorem retrieve_twice_on_store_witness:
  "deref [Index [(''sugar'', sugar), (''salt'', salt)], Names [''kept'']] 0
     = Some (Index [(''sugar'', sugar), (''salt'', salt)])
   \<and> retrieve_knowledge_heap ratio 0 [''Sugar'', ''Water'', ''SALT'']
       [Index [(''sugar'', sugar), (''salt'', salt)], Names [''kept'']]
     = (Inr (2, 3),
        [Index [(''sugar'', sugar), (''salt'', salt)], Names [''kept''],
         Records [sugar, salt], Names [''Water''], Ids {JNum 2, JNum 1}])
   \<and> retrieve_knowledge_heap ratio 0 [''Sugar'', ''Water'', ''SALT'']
       [Index [(''sugar'', sugar), (''salt'', salt)], Names [''kept''],
        Records [sugar, salt], Names [''Water''], Ids {JNum 2, JNum 1}]
     = (Inr (5, 6),
        [Index [(''sugar'', sugar), (''salt'', salt)], Names [''kept''],
         Records [sugar, salt], Names [''Water''], Ids {JNum 2, JNum 1},
         Records [sugar, salt], Names [''Water''], Ids {JNum 2, JNum 1}])
   \<and> retrieve_knowledge ratio [(''sugar'', sugar), (''salt'', salt)]
       [''Sugar'', ''Water'', ''SALT''] = Inr ([sugar, salt], [''Water''])"
proof -
  have h0: "deref [Index [(''sugar'', sugar), (''salt'', salt)], Names [''kept'']] 0
            = Some (Index [(''sugar'', sugar), (''salt'', salt)])"
    by (simp add: deref_def)
  have h1: "retrieve_knowledge_heap ratio 0 [''Sugar'', ''Water'', ''SALT'']
              [Index [(''sugar'', sugar), (''salt'', salt)], Names [''kept'']]
            = (Inr (2, 3),
               [Index [(''sugar'', sugar), (''salt'', salt)], Names [''kept''],
                Records [sugar, salt], Names [''Water''], Ids {JNum 2, JNum 1}])"
    by code_simp
  have h2: "retrieve_knowledge_heap ratio 0 [''Sugar'', ''Water'', ''SALT'']
              [Index [(''sugar'', sugar), (''salt'', salt)], Names [''kept''],
               Records [sugar, salt], Names [''Water''], Ids {JNum 2, JNum 1}]
            = (Inr (5, 6),
               [Index [(''sugar'', sugar), (''salt'', salt)], Names [''kept''],
                Records [sugar, salt], Names [''Water''], Ids {JNum 2, JNum 1},
                Records [sugar, salt], Names [''Water''], Ids {JNum 2, JNum 1}])"
    by code_simp
  have v: "returned_lists (Inr (2, 3))
             [Index [(''sugar'', sugar), (''salt'', salt)], Names [''kept''],
              Records [sugar, salt], Names [''Water''], Ids {JNum 2, JNum 1}]
           = Inr ([sugar, salt], [''Water''])"
    by (simp add: returned_lists_def deref_def)
  from retrieve_twice_on_store[OF h0 h1 h2] h0 h1 h2 v show ?thesis
    by simp
qed

subsection \<open>Failure paths\<close>











subsection \<open>The similarity tier\<close>

lemma Max_insert_two:
  fixes b s :: rat
  assumes "finite A"
  shows "Max (insert b (insert s A)) = (if s > b then Max (insert s A) else Max (insert b A))"
proof (cases "s > b")
  case True
  from assms have "Max (insert b (insert s A)) = max b (Max (insert s A))"
    by (intro Max_insert) simp_all
  moreover from assms have "s \<le> Max (insert s A)" by simp
  ultimately show ?thesis using True by (simp add: max_def)
next
  case False
  from assms have "Max (insert s (insert b A)) = max s (Max (insert b A))"
    by (intro Max_insert) simp_all
  moreover from assms have "b \<le> Max (insert b A)" by simp
  ultimately show ?thesis using False by (simp add: max_def insert_commute)
qed

lemma best_scan_result:
  "best_scan sim n L (bs, br) = (bs', br') \<Longrightarrow>
   bs' = Max (insert bs ((\<lambda>(key, record). sim n key) ` set L))
   \<and> br' = (if bs' > bs
            then map_option snd (List.find (\<lambda>(key, record). sim n key = bs') L)
            else br)"
proof (induction L arbitrary: bs br)
  case Nil
  then show ?case by simp
next
  case (Cons p L)
  obtain k r where p: "p = (k, r)" by (cases p)
  let ?A = "(\<lambda>(key, record). sim n key) ` set L"
  let ?P = "\<lambda>(key, record). sim n key = bs'"
  have fin: "finite ?A" by simp
  have img: "(\<lambda>(key, record). sim n key) ` set (p # L) = insert (sim n k) ?A"
    by (simp add: p)
  have M: "Max (insert bs (insert (sim n k) ?A))
           = (if sim n k > bs then Max (insert (sim n k) ?A) else Max (insert bs ?A))"
    using fin by (rule Max_insert_two)
  have F: "List.find ?P (p # L) = (if sim n k = bs' then Some (k, r) else List.find ?P L)"
    by (simp add: p)
  show ?case
  proof (cases "sim n k > bs")
    case True
    with Cons.prems p have "best_scan sim n L (sim n k, Some r) = (bs', br')" by simp
    from Cons.IH[OF this]
    have b1: "bs' = Max (insert (sim n k) ?A)"
      and b2: "br' = (if bs' > sim n k then map_option snd (List.find ?P L) else Some r)"
      by simp_all
    from fin have "sim n k \<le> Max (insert (sim n k) ?A)" by simp
    with b1 have ge: "sim n k \<le> bs'" by simp
    with True have gt: "bs < bs'" by simp
    from b1 M True
    have g1: "bs' = Max (insert bs ((\<lambda>(key, record). sim n key) ` set (p # L)))"
      unfolding img by simp
    have "br' = map_option snd (List.find ?P (p # L))"
    proof (cases "bs' > sim n k")
      case True
      with b2 F show ?thesis by simp
    next
      case False
      with ge have "sim n k = bs'" by simp
      with b2 F show ?thesis by simp
    qed
    with gt have g2: "br' = (if bs' > bs then map_option snd (List.find ?P (p # L)) else br)"
      by simp
    show ?thesis by (rule conjI[OF g1 g2])
  next
    case False
    with Cons.prems p have "best_scan sim n L (bs, br) = (bs', br')" by simp
    from Cons.IH[OF this]
    have b1: "bs' = Max (insert bs ?A)"
      and b2: "br' = (if bs' > bs then map_option snd (List.find ?P L) else br)"
      by simp_all
    from b1 M False
    have g1: "bs' = Max (insert bs ((\<lambda>(key, record). sim n key) ` set (p # L)))"
      unfolding img by simp
    have g2: "br' = (if bs' > bs then map_option snd (List.find ?P (p # L)) else br)"
    proof (cases "bs' > bs")
      case True
      with False have "sim n k \<noteq> bs'" by auto
      with b2 F True show ?thesis by simp
    next
      case F2: False
      with b2 show ?thesis by simp
    qed
    show ?thesis by (rule conjI[OF g1 g2])
  qed
qed

lemma containment_scan_None:
  "\<forall>(key, record) \<in> set L. \<not> str_in key n \<and> \<not> str_in n key \<Longrightarrow> containment_scan n L = None"
  by (induction L) auto

lemma retrieve_single_unmatched:
  "match_one sim L name = None \<Longrightarrow> retrieve_knowledge sim L [name] = Inr ([], [name])"
  by (simp add: retrieve_knowledge_def retrieve_step_def initial_state_def)

text \<open>
  C3, as the code has it. When the normalised candidate is no key and no key is in a
  containment relation with it, the scan visits every key; its best score is the greatest
  of 0 and the scores of all keys. The matcher returns the record of the first key that
  attains the best score when that score is positive and at least the threshold; otherwise
  it returns \<^verbatim>\<open>None\<close>, also when the best score is 0 and the threshold is 0. On
  \<^verbatim>\<open>None\<close> retrieval reports the candidate as it was given.
\<close>

theorem similarity_tier_best_positive_score:
  assumes "strip (lower name) \<notin> fst ` set LOOKUP"
    and "\<forall>(key, record) \<in> set LOOKUP.
           \<not> str_in key (strip (lower name)) \<and> \<not> str_in (strip (lower name)) key"
    and "best = Max (insert 0 ((\<lambda>(key, record). sim (strip (lower name)) key) ` set LOOKUP))"
  shows "fuzzy_match_ingredient sim LOOKUP name threshold
         = (if best \<ge> threshold \<and> best > 0
            then map_option snd
                   (List.find (\<lambda>(key, record). sim (strip (lower name)) key = best) LOOKUP)
            else None)
         \<and> (best > 0 \<longrightarrow>
              (\<exists>key record. List.find (\<lambda>(key, record). sim (strip (lower name)) key = best) LOOKUP
                              = Some (key, record)))
         \<and> (fuzzy_match_ingredient sim LOOKUP name default_threshold = None
              \<longrightarrow> retrieve_knowledge sim LOOKUP [name] = Inr ([], [name]))"
proof -
  let ?n = "strip (lower name)"
  let ?A = "(\<lambda>(key, record). sim ?n key) ` set LOOKUP"
  obtain bs br where b: "best_scan sim ?n LOOKUP (0, None) = (bs, br)"
    by (cases "best_scan sim ?n LOOKUP (0, None)")
  from best_scan_result[OF b] assms(3)
  have bs: "bs = best"
    and br: "br = (if best > 0
                   then map_option snd (List.find (\<lambda>(key, record). sim ?n key = best) LOOKUP)
                   else None)"
    by simp_all
  from assms(1) have t1: "map_of LOOKUP ?n = None"
    by (simp add: map_of_None_iff)
  from assms(2) have t2: "containment_scan ?n LOOKUP = None"
    by (rule containment_scan_None)
  from t1 t2 b bs br have 1: "fuzzy_match_ingredient sim LOOKUP name threshold
         = (if best \<ge> threshold \<and> best > 0
            then map_option snd (List.find (\<lambda>(key, record). sim ?n key = best) LOOKUP)
            else None)"
    by (simp add: fuzzy_match_ingredient_def)
  have 2: "\<exists>key record. List.find (\<lambda>(key, record). sim ?n key = best) LOOKUP = Some (key, record)"
    if pos: "best > 0"
  proof -
    have "Max (insert 0 ?A) \<in> insert 0 ?A"
      by (rule Max_in) simp_all
    with pos assms(3) have "best \<in> ?A" by auto
    then have "\<exists>p \<in> set LOOKUP. (\<lambda>(key, record). sim ?n key = best) p" by auto
    then have "List.find (\<lambda>(key, record). sim ?n key = best) LOOKUP \<noteq> None"
      by (auto simp: find_None_iff)
    then show ?thesis by auto
  qed
  have 3: "retrieve_knowledge sim LOOKUP [name] = Inr ([], [name])"
    if "fuzzy_match_ingredient sim LOOKUP name default_threshold = None"
    using that by (rule retrieve_single_unmatched)
  from 1 2 3 show ?thesis by blast
qed


text \<open>
  The misspelt \<^verbatim>\<open>suger\<close>: no exact key, no containment, scores 4/5 against
  \<^verbatim>\<open>sugar\<close> and 2/9 against \<^verbatim>\<open>salt\<close>. At the default threshold the record of
  \<^verbatim>\<open>sugar\<close> is returned, at 0.99 nothing is.
\<close>

theorem similarity_tier_best_positive_score_witness:
  "strip (lower ''suger'') \<notin> fst ` set [(''salt'', salt), (''sugar'', sugar)]
   \<and> containment_scan (strip (lower ''suger'')) [(''salt'', salt), (''sugar'', sugar)] = None
   \<and> ratio (strip (lower ''suger'')) ''salt'' = 2 / 9
   \<and> ratio (strip (lower ''suger'')) ''sugar'' = 4 / 5
   \<and> Max (insert 0 ((\<lambda>(key, record). ratio (strip (lower ''suger'')) key)
                      ` set [(''salt'', salt), (''sugar'', sugar)])) = 4 / 5
   \<and> fuzzy_match_ingredient ratio [(''salt'', salt), (''sugar'', sugar)] ''suger''
       default_threshold = Some sugar
   \<and> fuzzy_match_ingredient ratio [(''salt'', salt), (''sugar'', sugar)] ''suger'' (99 / 100)
       = None"
proof -
  have n: "strip (lower ''suger'') = ''suger''"
    by code_simp
  have r1: "ratio ''suger'' ''salt'' = 2 / 9"
    by code_simp
  have r2: "ratio ''suger'' ''sugar'' = 4 / 5"
    by code_simp
  have h1: "strip (lower ''suger'') \<notin> fst ` set [(''salt'', salt), (''sugar'', sugar)]"
    by (simp add: n)
  have h2: "\<forall>(key, record) \<in> set [(''salt'', salt), (''sugar'', sugar)].
              \<not> str_in key (strip (lower ''suger'')) \<and> \<not> str_in (strip (lower ''suger'')) key"
    by (simp add: n)
  have c: "containment_scan (strip (lower ''suger'')) [(''salt'', salt), (''sugar'', sugar)] = None"
    by (simp add: n)
  have h3: "(4 / 5 :: rat) = Max (insert 0 ((\<lambda>(key, record). ratio (strip (lower ''suger'')) key)
                      ` set [(''salt'', salt), (''sugar'', sugar)]))"
    by (simp add: n r1 r2)
  note t = similarity_tier_best_positive_score
             [where name = "''suger''" and LOOKUP = "[(''salt'', salt), (''sugar'', sugar)]"
                and sim = ratio and best = "4 / 5", OF h1 h2 h3]
  from t[of default_threshold]
  have a: "fuzzy_match_ingredient ratio [(''salt'', salt), (''sugar'', sugar)] ''suger''
             default_threshold = Some sugar"
    by (simp add: n r1 r2 default_threshold_def)
  from t[of "99 / 100"]
  have b: "fuzzy_match_ingredient ratio [(''salt'', salt), (''sugar'', sugar)] ''suger''
             (99 / 100) = None"
    by simp
  from h1 c r1 r2 h3 a b show ?thesis
    by (simp add: n)
qed

text \<open>
  The claim as it is written fails at threshold 0: \<^verbatim>\<open>Rice\<close> shares no character with
  the only key \<^verbatim>\<open>salt\<close>, the scan ends with the score 0 of its start and no record, and
  although 0 is at least the threshold the matcher returns \<^verbatim>\<open>None\<close>.
\<close>

theorem zero_score_never_matches:
  "strip (lower ''Rice'') \<notin> fst ` set [(''salt'', salt)]
   \<and> containment_scan (strip (lower ''Rice'')) [(''salt'', salt)] = None
   \<and> ratio (strip (lower ''Rice'')) ''salt'' = 0
   \<and> best_scan ratio (strip (lower ''Rice'')) [(''salt'', salt)] (0, None) = (0, None)
   \<and> fuzzy_match_ingredient ratio [(''salt'', salt)] ''Rice'' 0 = None"
proof -
  have n: "strip (lower ''Rice'') = ''rice''"
    by code_simp
  have r: "ratio ''rice'' ''salt'' = 0"
    by code_simp
  have c: "containment_scan ''rice'' [(''salt'', salt)] = None"
    by simp
  have b: "best_scan ratio ''rice'' [(''salt'', salt)] (0, None) = (0, None)"
    by (simp add: r)
  have m: "map_of [(''salt'', salt)] ''rice'' = None"
    by simp
  have "fuzzy_match_ingredient ratio [(''salt'', salt)] ''Rice'' 0 = None"
    by (simp add: fuzzy_match_ingredient_def n r)
  with n r c b show ?thesis by simp
qed

end
